theory Spec2Isabelle
  imports Main "HOL-Library.Word" "HOL-Library.Sublist"
begin

section \<open>The chat page controller of \<open>frontend/pages/index.js\<close>\<close>

text \<open>
  The page is one React component. Its controller is the asynchronous function
  \<open>sendMessage\<close>, the handler \<open>stopGeneration\<close> and three inline handlers of the
  markup. The embedding follows the source line by line: component state is a record
  that every handler takes and returns, the single \<open>await\<close> point splits
  \<open>sendMessage\<close> into the part that runs in the event handler and the part that runs
  when the request settles, and the exception of the \<open>try\<close> block is a value of a sum.
\<close>

subsection \<open>Strings\<close>

text \<open>
  A JavaScript string is a sequence of 16-bit code units. Literals of the source are
  ASCII and are written through \<open>utf16\<close>.
\<close>

type_synonym js_string = "16 word list"

definition utf16 :: "string \<Rightarrow> js_string" where
  "utf16 s = map (\<lambda>c. word_of_nat (of_char c)) s"

text \<open>
  \<open>String.prototype.trim\<close> removes, at both ends, the code units of the ECMAScript
  productions WhiteSpace (TAB, VT, FF, U+FEFF and the space separators) and
  LineTerminator (LF, CR, U+2028, U+2029).
\<close>

definition is_whitespace :: "16 word \<Rightarrow> bool" where
  "is_whitespace c \<longleftrightarrow>
     c \<in> {0x0009, 0x000A, 0x000B, 0x000C, 0x000D, 0x0020, 0x00A0, 0x1680,
          0x2000, 0x2001, 0x2002, 0x2003, 0x2004, 0x2005, 0x2006, 0x2007,
          0x2008, 0x2009, 0x200A, 0x2028, 0x2029, 0x202F, 0x205F, 0x3000, 0xFEFF}"

definition trim :: "js_string \<Rightarrow> js_string" where
  "trim s = rev (dropWhile is_whitespace (rev (dropWhile is_whitespace s)))"

subsection \<open>Data model\<close>

text \<open>
  A message is a JavaScript object. The fields \<open>id\<close>, \<open>sources\<close>, \<open>isStreaming\<close> and
  \<open>isError\<close> are absent from some messages (\<open>undefined\<close>), which is \<open>None\<close>. The
  value of \<open>sources\<close> is whatever the server sent; the controller never inspects it, so
  its type is a parameter.
\<close>

datatype role = User | Bot

record 'v message =
  role :: role
  msg_id :: "int option"
  msg_text :: js_string
  sources :: "'v option"
  msg_isStreaming :: "bool option"
  isError :: "bool option"

text \<open>
  The component state: the four \<open>useState\<close> cells the controller writes, the ref
  \<open>abortRef\<close>, and the \<open>AbortController\<close> objects allocated so far. A controller is
  named by its position in \<open>controllers\<close>; the entry is the \<open>aborted\<close> flag of its
  signal, which the pending \<open>fetch\<close> shares with \<open>abortRef\<close>.
\<close>

record 'v chat_state =
  input :: js_string
  messages :: "'v message list"
  isStreaming :: bool
  error :: "js_string option"
  abortRef :: "nat option"
  controllers :: "bool list"

text \<open>
  The argument of \<open>fetch\<close>. The body is the value handed to \<open>JSON.stringify\<close>.
\<close>

datatype json = JString js_string | JObject "(js_string \<times> json) list"

record request =
  url :: js_string
  http_method :: js_string
  headers :: "(js_string \<times> js_string) list"
  body :: json
  signal :: nat

subsection \<open>sendMessage up to the await\<close>

text \<open>
  Lines 31 to 53. \<open>now\<close> is the value of \<open>Date.now()\<close>. The result is the new state
  and the request handed to \<open>fetch\<close>, if any.
\<close>

definition sendMessage :: "int \<Rightarrow> 'v chat_state \<Rightarrow> 'v chat_state \<times> request option" where
  "sendMessage now s =
     (if trim (input s) = [] \<or> isStreaming s then (s, None)
      else
        let userMessage = \<lparr>role = User, msg_id = None, msg_text = trim (input s),
                             sources = None, msg_isStreaming = None, isError = None\<rparr>;
            ident = now;
            c = length (controllers s)
        in (s\<lparr>messages := messages s @
                  [userMessage,
                   \<lparr>role = Bot, msg_id = Some ident, msg_text = [],
                    sources = None, msg_isStreaming = Some True, isError = None\<rparr>],
               input := [],
               isStreaming := True,
               error := None,
               abortRef := Some c,
               controllers := controllers s @ [False]\<rparr>,
            Some \<lparr>url = utf16 ''http://127.0.0.1:8000/ask'',
                  http_method = utf16 ''POST'',
                  headers = [(utf16 ''Content-Type'', utf16 ''application/json'')],
                  body = JObject [(utf16 ''question'', JString (msg_text userMessage))],
                  signal = c\<rparr>))"

subsection \<open>sendMessage after the await\<close>

text \<open>
  How the request settles: \<open>fetch\<close> rejects with an error of some name, or resolves
  with a response of some status whose \<open>json()\<close> either rejects or yields the object
  \<open>{answer, sources}\<close>. \<open>res.ok\<close> is true for the statuses 200 to 299.
\<close>

datatype 'v body_result = Json_rejected js_string | Json js_string 'v

datatype 'v outcome = Fetch_rejected js_string | Response nat "'v body_result"

definition ok :: "nat \<Rightarrow> bool" where
  "ok status \<longleftrightarrow> 200 \<le> status \<and> status \<le> 299"

definition stopped_text :: js_string where
  "stopped_text = utf16 ''Response generation stopped.''"

definition fallback_text :: js_string where
  "fallback_text = utf16 (''I apologize, but I'm unable to connect to the server at the moment. ''
     @ ''Please check your connection and try again.'')"

definition banner_text :: js_string where
  "banner_text = utf16 ''Unable to connect to server. Please try again.''"

text \<open>
  Lines 55 to 67: the rest of the \<open>try\<close> block. \<open>Inl\<close> is the name of the error
  thrown; every throw comes before the block's one state update.
\<close>

definition try_block :: "int \<Rightarrow> 'v outcome \<Rightarrow> 'v chat_state \<Rightarrow> js_string + 'v chat_state" where
  "try_block ident out s =
     (case out of
        Fetch_rejected name \<Rightarrow> Inl name
      | Response status b \<Rightarrow>
          if \<not> ok status then Inl (utf16 ''Error'')
          else (case b of
                  Json_rejected name \<Rightarrow> Inl name
                | Json answer srcs \<Rightarrow>
                    Inr (s\<lparr>messages :=
                            map (\<lambda>m. if msg_id m = Some ident
                                      then m\<lparr>msg_text := answer, sources := Some srcs,
                                             msg_isStreaming := Some False\<rparr>
                                      else m)
                                (messages s)\<rparr>)))"

text \<open>Lines 68 to 92.\<close>

definition catch_block :: "int \<Rightarrow> js_string \<Rightarrow> 'v chat_state \<Rightarrow> 'v chat_state" where
  "catch_block ident name s =
     (if name = utf16 ''AbortError''
      then s\<lparr>messages :=
               map (\<lambda>m. if msg_id m = Some ident
                         then m\<lparr>msg_text := stopped_text, msg_isStreaming := Some False\<rparr>
                         else m)
                   (messages s)\<rparr>
      else s\<lparr>error := Some banner_text,
             messages :=
               map (\<lambda>m. if msg_id m = Some ident
                         then m\<lparr>msg_text := fallback_text, msg_isStreaming := Some False,
                                isError := Some True\<rparr>
                         else m)
                   (messages s)\<rparr>)"

text \<open>Lines 93 to 96.\<close>

definition finally_block :: "'v chat_state \<Rightarrow> 'v chat_state" where
  "finally_block s = s\<lparr>isStreaming := False, abortRef := None\<rparr>"

definition resume :: "int \<Rightarrow> 'v outcome \<Rightarrow> 'v chat_state \<Rightarrow> 'v chat_state" where
  "resume ident out s =
     finally_block (case try_block ident out s of
                      Inl name \<Rightarrow> catch_block ident name s
                    | Inr s' \<Rightarrow> s')"

subsection \<open>stopGeneration\<close>

text \<open>Lines 100 to 105. \<open>abort()\<close> sets the flag of the controller in \<open>abortRef\<close>.\<close>

definition stopGeneration :: "'v chat_state \<Rightarrow> 'v chat_state" where
  "stopGeneration s =
     (case abortRef s of
        None \<Rightarrow> s
      | Some c \<Rightarrow> s\<lparr>controllers := (controllers s)[c := True], isStreaming := False\<rparr>)"

subsection \<open>The page and its pending requests\<close>

text \<open>
  An invocation of \<open>sendMessage\<close> that has reached its \<open>await\<close> is a call: the
  \<open>id\<close> it closed over and the request it waits for. The world is the component state
  together with the calls that wait.
\<close>

record call =
  call_id :: int
  call_request :: request

record 'v world =
  page :: "'v chat_state"
  inflight :: "call list"

definition init :: "'v world" where
  "init = \<lparr>page = \<lparr>input = [], messages = [], isStreaming = False, error = None,
                    abortRef = None, controllers = []\<rparr>,
           inflight = []\<rparr>"

definition aborted :: "'v chat_state \<Rightarrow> nat \<Rightarrow> bool" where
  "aborted s c \<longleftrightarrow> c < length (controllers s) \<and> controllers s ! c"

text \<open>
  Aborting a signal rejects the promise of the \<open>fetch\<close> (or of the \<open>json()\<close>) it was
  given to with an \<open>AbortError\<close>, inside the call of \<open>abort()\<close>. The rejected call
  resumes in the microtask checkpoint that ends the click handler, before the browser
  dispatches another event. \<open>reject_aborted\<close> resumes every waiting call whose
  signal is aborted and keeps the others.
\<close>

fun reject_aborted :: "call list \<Rightarrow> 'v chat_state \<Rightarrow> 'v chat_state \<times> call list" where
  "reject_aborted [] s = (s, [])"
| "reject_aborted (c # cs) s =
     (if aborted s (signal (call_request c))
      then reject_aborted cs (resume (call_id c) (Fetch_rejected (utf16 ''AbortError'')) s)
      else (let (s', cs') = reject_aborted cs s in (s', c # cs')))"

text \<open>
  What can happen to the page:
  \<^item> \<open>Type v\<close>: \<open>onChange\<close> of the textarea, \<open>setInput(e.target.value)\<close>. The textarea
    is \<open>disabled\<close> while \<open>isStreaming\<close> (line 616), so the handler does not fire then.
  \<^item> \<open>Dismiss\<close>: the button of the error banner, \<open>setError(null)\<close>.
  \<^item> \<open>Submit now\<close>: the send button or the Enter key, \<open>sendMessage()\<close> with
    \<open>Date.now() = now\<close>.
  \<^item> \<open>Stop\<close>: the stop button, \<open>stopGeneration()\<close>, then the calls it aborted.
  \<^item> \<open>Settle k out\<close>: the request of the \<open>k\<close>-th waiting call settles with \<open>out\<close>.
  \<open>Submit\<close>, \<open>Stop\<close> and \<open>Dismiss\<close> may fire in any state: their handlers carry
  their own guards.
\<close>

datatype 'v event =
    Type js_string
  | Dismiss
  | Submit int
  | Stop
  | Settle nat "'v outcome"

fun fire :: "'v event \<Rightarrow> 'v world \<Rightarrow> 'v world" where
  "fire (Type v) w =
     (if isStreaming (page w) then w else w\<lparr>page := (page w)\<lparr>input := v\<rparr>\<rparr>)"
| "fire Dismiss w = w\<lparr>page := (page w)\<lparr>error := None\<rparr>\<rparr>"
| "fire (Submit now) w =
     (case sendMessage now (page w) of
        (s', None) \<Rightarrow> w\<lparr>page := s'\<rparr>
      | (s', Some q) \<Rightarrow>
          \<lparr>page = s', inflight = inflight w @ [\<lparr>call_id = now, call_request = q\<rparr>]\<rparr>)"
| "fire Stop w =
     (let (s', cs) = reject_aborted (inflight w) (stopGeneration (page w))
      in \<lparr>page = s', inflight = cs\<rparr>)"
| "fire (Settle k out) w =
     (if k < length (inflight w)
      then \<lparr>page = resume (call_id (inflight w ! k)) out (page w),
            inflight = take k (inflight w) @ drop (Suc k) (inflight w)\<rparr>
      else w)"

definition run :: "'v event list \<Rightarrow> 'v world \<Rightarrow> 'v world" where
  "run evs w = fold fire evs w"

text \<open>
  The role sequence user, bot, user, bot, ... of a conversation (of even length).
\<close>

fun alternating :: "role list \<Rightarrow> bool" where
  "alternating [] = True"
| "alternating (User # Bot # rs) = alternating rs"
| "alternating _ = False"

text \<open>The placeholder that \<open>sendMessage\<close> appends for the call with a given id.\<close>

definition placeholder :: "int \<Rightarrow> 'v message" where
  "placeholder ident =
     \<lparr>role = Bot, msg_id = Some ident, msg_text = [], sources = None,
      msg_isStreaming = Some True, isError = None\<rparr>"

subsection \<open>The invariant\<close>

text \<open>
  The invariant of the reachable worlds: the conversation alternates, and either no
  call waits and the page is idle, or exactly one call waits, the page streams,
  \<open>abortRef\<close> holds the call's controller, not yet aborted, the banner and the draft
  are empty, and the last message is the call's untouched placeholder.
\<close>

definition waiting_for :: "'v chat_state \<Rightarrow> call \<Rightarrow> bool" where
  "waiting_for s c \<longleftrightarrow>
     isStreaming s \<and> abortRef s = Some (signal (call_request c)) \<and>
     signal (call_request c) < length (controllers s) \<and>
     \<not> controllers s ! signal (call_request c) \<and>
     error s = None \<and> input s = [] \<and>
     messages s \<noteq> [] \<and> last (messages s) = placeholder (call_id c)"

definition consistent :: "'v world \<Rightarrow> bool" where
  "consistent w \<longleftrightarrow>
     alternating (map role (messages (page w))) \<and>
     list_all (\<lambda>m. role m = User \<longrightarrow> msg_id m = None) (messages (page w)) \<and>
     (case inflight w of
        [] \<Rightarrow> \<not> isStreaming (page w) \<and> abortRef (page w) = None
      | c # cs \<Rightarrow> cs = [] \<and> waiting_for (page w) c)"

section \<open>Properties of trim\<close>

lemma trim_Nil_iff: "trim s = [] \<longleftrightarrow> (\<forall>c\<in>set s. is_whitespace c)"
proof
  assume "trim s = []"
  then have all: "\<forall>c\<in>set (dropWhile is_whitespace s). is_whitespace c"
    by (simp add: trim_def)
  have "dropWhile is_whitespace s = []"
  proof (rule ccontr)
    assume ne: "dropWhile is_whitespace s \<noteq> []"
    then have "\<not> is_whitespace (hd (dropWhile is_whitespace s))"
      by (rule hd_dropWhile)
    moreover have "hd (dropWhile is_whitespace s) \<in> set (dropWhile is_whitespace s)"
      using ne by simp
    ultimately show False using all by blast
  qed
  then show "\<forall>c\<in>set s. is_whitespace c"
    by simp
next
  assume "\<forall>c\<in>set s. is_whitespace c"
  then show "trim s = []"
    by (auto simp: trim_def dest: set_dropWhileD)
qed

lemma trim_decomposes:
  "\<exists>a b. s = a @ trim s @ b \<and> (\<forall>c\<in>set a. is_whitespace c) \<and> (\<forall>c\<in>set b. is_whitespace c)"
proof -
  let ?P = is_whitespace
  let ?d = "dropWhile ?P s"
  have "rev ?d = takeWhile ?P (rev ?d) @ dropWhile ?P (rev ?d)"
    by simp
  then have "?d = rev (dropWhile ?P (rev ?d)) @ rev (takeWhile ?P (rev ?d))"
    by (metis rev_append rev_rev_ident)
  then have "s = takeWhile ?P s @ trim s @ rev (takeWhile ?P (rev ?d))"
    by (metis takeWhile_dropWhile_id trim_def)
  moreover have "\<forall>c\<in>set (takeWhile ?P s). ?P c"
    by (auto dest: set_takeWhileD)
  moreover have "\<forall>c\<in>set (rev (takeWhile ?P (rev ?d))). ?P c"
    by (auto dest: set_takeWhileD)
  ultimately show ?thesis by blast
qed

lemma trim_ends:
  assumes "trim s \<noteq> []"
  shows "\<not> is_whitespace (hd (trim s)) \<and> \<not> is_whitespace (last (trim s))"
proof -
  let ?P = is_whitespace
  let ?d = "dropWhile ?P s"
  from assms have ne: "dropWhile ?P (rev ?d) \<noteq> []" by (simp add: trim_def)
  then have "\<not> ?P (hd (dropWhile ?P (rev ?d)))" by (rule hd_dropWhile)
  then have l: "\<not> ?P (last (trim s))"
    using ne by (simp add: trim_def last_rev)
  have dne: "?d \<noteq> []" using ne by (metis dropWhile.simps(1) rev.simps(1))
  then have h: "\<not> ?P (hd ?d)" by (rule hd_dropWhile)
  have "rev ?d = takeWhile ?P (rev ?d) @ dropWhile ?P (rev ?d)" by simp
  then have "?d = trim s @ rev (takeWhile ?P (rev ?d))"
    by (metis rev_append rev_rev_ident trim_def)
  then have "hd ?d = hd (trim s)" using assms by (metis hd_append2)
  with h l show ?thesis by simp
qed

section \<open>The handlers, step by step\<close>

lemma AbortError_neq_Error: "utf16 ''Error'' \<noteq> utf16 ''AbortError''"
  by (simp add: utf16_def)

lemma sendMessage_blocked:
  "trim (input s) = [] \<or> isStreaming s \<Longrightarrow> sendMessage now s = (s, None)"
  by (simp add: sendMessage_def)

lemma sendMessage_accepted:
  assumes "trim (input s) \<noteq> []" and "\<not> isStreaming s"
  shows "sendMessage now s =
    (s\<lparr>messages := messages s @
          [\<lparr>role = User, msg_id = None, msg_text = trim (input s),
            sources = None, msg_isStreaming = None, isError = None\<rparr>,
           placeholder now],
       input := [], isStreaming := True, error := None,
       abortRef := Some (length (controllers s)),
       controllers := controllers s @ [False]\<rparr>,
     Some \<lparr>url = utf16 ''http://127.0.0.1:8000/ask'',
           http_method = utf16 ''POST'',
           headers = [(utf16 ''Content-Type'', utf16 ''application/json'')],
           body = JObject [(utf16 ''question'', JString (trim (input s)))],
           signal = length (controllers s)\<rparr>)"
  using assms by (simp add: sendMessage_def placeholder_def Let_def)

lemma alternating_append: "alternating rs \<Longrightarrow> alternating (rs @ [User, Bot])"
  by (induction rs rule: alternating.induct) simp_all

lemma alternating_even: "alternating rs \<Longrightarrow> even (length rs)"
  by (induction rs rule: alternating.induct) simp_all

lemma resume_fields:
  "isStreaming (resume ident out s) = False"
  "abortRef (resume ident out s) = None"
  "input (resume ident out s) = input s"
  "controllers (resume ident out s) = controllers s"
  by (simp_all add: resume_def try_block_def catch_block_def finally_block_def
      split: outcome.splits body_result.splits)

lemma resume_length: "length (messages (resume ident out s)) = length (messages s)"
  by (simp add: resume_def try_block_def catch_block_def finally_block_def
      split: outcome.splits body_result.splits)

lemma resume_nth:
  assumes "i < length (messages s)"
  shows "role (messages (resume ident out s) ! i) = role (messages s ! i)"
    and "msg_id (messages (resume ident out s) ! i) = msg_id (messages s ! i)"
    and "msg_id (messages s ! i) \<noteq> Some ident \<Longrightarrow>
           messages (resume ident out s) ! i = messages s ! i"
  using assms
  by (simp_all add: resume_def try_block_def catch_block_def finally_block_def
      split: outcome.splits body_result.splits)

lemma resume_user_ids:
  assumes "list_all (\<lambda>m. role m = User \<longrightarrow> msg_id m = None) (messages s)"
  shows "list_all (\<lambda>m. role m = User \<longrightarrow> msg_id m = None) (messages (resume ident out s))"
  unfolding list_all_length
proof (intro allI impI)
  fix i assume "i < length (messages (resume ident out s))" 
    and u: "role (messages (resume ident out s) ! i) = User"
  then have i: "i < length (messages s)" by (simp add: resume_length)
  with u have "role (messages s ! i) = User" by (simp add: resume_nth)
  with assms i have "msg_id (messages s ! i) = None" by (simp add: list_all_length)
  with i show "msg_id (messages (resume ident out s) ! i) = None" by (simp add: resume_nth)
qed

lemma resume_roles: "map role (messages (resume ident out s)) = map role (messages s)"
  by (rule nth_equalityI) (simp_all add: resume_length resume_nth)

section \<open>Every reachable world is consistent\<close>

lemma consistent_init: "consistent init"
  by (simp add: consistent_def init_def)

lemma consistent_idle:
  "consistent w \<Longrightarrow> inflight w = [] \<Longrightarrow> \<not> isStreaming (page w) \<and> abortRef (page w) = None"
  by (simp add: consistent_def)

lemma consistent_busy:
  "consistent w \<Longrightarrow> inflight w \<noteq> [] \<Longrightarrow>
     \<exists>c. inflight w = [c] \<and> waiting_for (page w) c"
  by (cases "inflight w") (simp_all add: consistent_def)

lemma consistent_Type: "consistent w \<Longrightarrow> consistent (fire (Type v) w)"
  by (cases "inflight w") (auto simp: consistent_def waiting_for_def)

lemma consistent_Dismiss: "consistent w \<Longrightarrow> consistent (fire Dismiss w)"
  by (cases "inflight w") (auto simp: consistent_def waiting_for_def)

lemma fire_Submit_blocked:
  "trim (input (page w)) = [] \<or> isStreaming (page w) \<Longrightarrow> fire (Submit now) w = w"
  by (simp add: sendMessage_blocked)

lemma consistent_Submit:
  assumes "consistent w"
  shows "consistent (fire (Submit now) w)"
proof (cases "trim (input (page w)) = [] \<or> isStreaming (page w)")
  case True
  with assms show ?thesis by (simp only: fire_Submit_blocked)
next
  case False
  then have idle: "inflight w = []"
    using assms consistent_busy [of w] by (auto simp: waiting_for_def)
  from False have "trim (input (page w)) \<noteq> []" "\<not> isStreaming (page w)" by simp_all
  note acc = sendMessage_accepted [OF this, of now]
  from assms have "alternating (map role (messages (page w)))" by (simp add: consistent_def)
  then have "alternating (map role (messages (page w)) @ [User, Bot])"
    by (rule alternating_append)
  moreover from assms
  have "list_all (\<lambda>m. role m = User \<longrightarrow> msg_id m = None) (messages (page w))"
    by (simp add: consistent_def)
  ultimately show ?thesis
    by (simp add: acc idle consistent_def waiting_for_def placeholder_def nth_append)
qed

lemma consistent_Settle:
  assumes "consistent w"
  shows "consistent (fire (Settle k out) w)"
proof (cases "k < length (inflight w)")
  case False
  with assms show ?thesis by simp
next
  case True
  then obtain c where c: "inflight w = [c]" and "k = 0"
    using assms consistent_busy [of w] by (cases "inflight w") auto
  with assms show ?thesis
    by (simp add: consistent_def resume_roles resume_fields resume_user_ids)
qed

lemma stopGeneration_None: "abortRef s = None \<Longrightarrow> stopGeneration s = s"
  by (simp add: stopGeneration_def)

lemma stopGeneration_Some:
  "abortRef s = Some c \<Longrightarrow>
     stopGeneration s = s\<lparr>controllers := (controllers s)[c := True], isStreaming := False\<rparr>"
  by (simp add: stopGeneration_def)

lemma reject_aborted_single:
  assumes "waiting_for s c"
  shows "reject_aborted [c] (stopGeneration s) =
           (resume (call_id c) (Fetch_rejected (utf16 ''AbortError'')) (stopGeneration s), [])"
proof -
  from assms have "abortRef s = Some (signal (call_request c))"
    and "signal (call_request c) < length (controllers s)"
    by (simp_all add: waiting_for_def)
  then have "aborted (stopGeneration s) (signal (call_request c))"
    by (simp add: stopGeneration_Some aborted_def)
  then show ?thesis by simp
qed

lemma fire_Stop_idle:
  assumes "consistent w" and "inflight w = []"
  shows "fire Stop w = w"
proof -
  from assms have "stopGeneration (page w) = page w"
    by (simp add: consistent_def stopGeneration_None)
  then show ?thesis using assms(2) by (cases w) simp
qed

lemma fire_Stop_busy:
  assumes "consistent w" and "inflight w = [c]"
  shows "fire Stop w =
    \<lparr>page = resume (call_id c) (Fetch_rejected (utf16 ''AbortError'')) (stopGeneration (page w)),
     inflight = []\<rparr>"
proof -
  from assms have "waiting_for (page w) c" by (simp add: consistent_def)
  then have "reject_aborted (inflight w) (stopGeneration (page w)) =
      (resume (call_id c) (Fetch_rejected (utf16 ''AbortError'')) (stopGeneration (page w)), [])"
    unfolding assms(2) by (rule reject_aborted_single)
  then show ?thesis by simp
qed

lemma stopGeneration_messages: "messages (stopGeneration s) = messages s"
  by (simp add: stopGeneration_def split: option.splits)

lemma consistent_Stop:
  assumes "consistent w"
  shows "consistent (fire Stop w)"
proof (cases "inflight w")
  case Nil
  with assms show ?thesis by (simp only: fire_Stop_idle)
next
  case (Cons c cs)
  with assms have "inflight w = [c]" by (simp add: consistent_def)
  with assms have "fire Stop w =
      \<lparr>page = resume (call_id c) (Fetch_rejected (utf16 ''AbortError'')) (stopGeneration (page w)),
       inflight = []\<rparr>"
    by (rule fire_Stop_busy)
  with assms show ?thesis
    by (simp add: consistent_def resume_roles resume_fields resume_user_ids
        stopGeneration_messages)
qed

lemma consistent_fire: "consistent w \<Longrightarrow> consistent (fire e w)"
  by (cases e) (simp_all only: consistent_Type consistent_Dismiss consistent_Submit consistent_Stop consistent_Settle)

lemma run_snoc: "run (evs @ [e]) w = fire e (run evs w)"
  by (simp add: run_def)

lemma consistent_run: "consistent (run evs init)"
  by (induction evs rule: rev_induct) (simp_all add: run_def consistent_init consistent_fire)

section \<open>Submitting\<close>

text \<open>
  C1. When the draft holds a code unit that is not whitespace and the page is not
  streaming, \<open>sendMessage\<close> leaves the messages it found in place and appends exactly
  two: the user's message, whose text is the trimmed draft, and after it the bot's
  placeholder, whose \<open>isStreaming\<close> is true.
\<close>

theorem sendMessage_appends_user_and_placeholder:
  assumes "\<exists>c\<in>set (input s). \<not> is_whitespace c" and "\<not> isStreaming s"
  shows "messages (fst (sendMessage now s)) =
           messages s @
             [\<lparr>role = User, msg_id = None, msg_text = trim (input s), sources = None,
               msg_isStreaming = None, isError = None\<rparr>,
              \<lparr>role = Bot, msg_id = Some now, msg_text = [], sources = None,
               msg_isStreaming = Some True, isError = None\<rparr>]"
proof -
  from assms(1) have "trim (input s) \<noteq> []" by (simp add: trim_Nil_iff)
  then show ?thesis
    using assms(2) by (simp add: sendMessage_accepted placeholder_def)
qed

theorem sendMessage_appends_user_and_placeholder_witness:
  "(\<exists>c\<in>set [0x20, 0x68, 0x69, 0x0A :: 16 word]. \<not> is_whitespace c) \<and>
   \<not> isStreaming (page (init :: unit world)\<lparr>input := [0x20, 0x68, 0x69, 0x0A]\<rparr>) \<and>
   messages (fst (sendMessage 1700000000000
       (page (init :: unit world)\<lparr>input := [0x20, 0x68, 0x69, 0x0A]\<rparr>))) =
     [\<lparr>role = User, msg_id = None, msg_text = [0x68, 0x69], sources = None,
       msg_isStreaming = None, isError = None\<rparr>,
      \<lparr>role = Bot, msg_id = Some 1700000000000, msg_text = [], sources = None,
       msg_isStreaming = Some True, isError = None\<rparr>]"
proof -
  let ?s = "page (init :: unit world)\<lparr>input := [0x20, 0x68, 0x69, 0x0A]\<rparr>"
  have h1: "\<exists>c\<in>set (input ?s). \<not> is_whitespace c"
    by (simp add: is_whitespace_def)
  have h2: "\<not> isStreaming ?s" by (simp add: init_def)
  have t: "trim (input ?s) = [0x68, 0x69]"
    by (simp add: trim_def is_whitespace_def)
  have m: "messages ?s = []" by (simp add: init_def)
  from sendMessage_appends_user_and_placeholder [OF h1 h2, of 1700000000000]
  show ?thesis using h1 h2 unfolding t m by simp
qed

text \<open>
  C2. When the draft is empty or holds only whitespace, \<open>sendMessage\<close> returns the
  state it was given (messages, \<open>isStreaming\<close>, error and draft included) and hands
  nothing to \<open>fetch\<close>; the list of waiting calls stays as it was.
\<close>

theorem sendMessage_blank_is_noop:
  assumes "\<forall>c\<in>set (input s). is_whitespace c"
  shows "sendMessage now s = (s, None) \<and>
         fire (Submit now) \<lparr>page = s, inflight = cs\<rparr> = \<lparr>page = s, inflight = cs\<rparr>"
proof -
  from assms have "trim (input s) = []" by (simp add: trim_Nil_iff)
  then have "sendMessage now s = (s, None)" by (simp add: sendMessage_blocked)
  then show ?thesis by simp
qed

theorem sendMessage_blank_is_noop_witness:
  "list_all is_whitespace [0x20, 0x09, 0x0A :: 16 word] \<and>
   sendMessage 7 (page (init :: unit world)\<lparr>input := [0x20, 0x09, 0x0A]\<rparr>) =
     (page (init :: unit world)\<lparr>input := [0x20, 0x09, 0x0A]\<rparr>, None) \<and>
   sendMessage 7 (page (init :: unit world)) = (page (init :: unit world), None)"
proof -
  have h: "\<forall>c\<in>set (input (page (init :: unit world)\<lparr>input := [0x20, 0x09, 0x0A]\<rparr>)).
      is_whitespace c"
    by (simp add: is_whitespace_def)
  have e: "\<forall>c\<in>set (input (page (init :: unit world))). is_whitespace c"
    by (simp add: init_def)
  show ?thesis
    using sendMessage_blank_is_noop [OF h, of 7] sendMessage_blank_is_noop [OF e, of 7]
    by (simp add: is_whitespace_def)
qed

section \<open>Settling a request\<close>

lemma resume_thrown:
  "try_block ident out s = Inl name \<Longrightarrow>
     resume ident out s = finally_block (catch_block ident name s)"
  by (simp add: resume_def)

lemma resume_success_last:
  assumes "messages s \<noteq> []" and "last (messages s) = placeholder ident" and "ok status"
  shows "last (messages (resume ident (Response status (Json answer srcs)) s)) =
           \<lparr>role = Bot, msg_id = Some ident, msg_text = answer, sources = Some srcs,
            msg_isStreaming = Some False, isError = None\<rparr>"
  using assms
  by (simp add: resume_def try_block_def finally_block_def last_map placeholder_def)

lemma catch_abort_last:
  assumes "messages s \<noteq> []" and "last (messages s) = placeholder ident"
  shows "last (messages (finally_block (catch_block ident (utf16 ''AbortError'') s))) =
           \<lparr>role = Bot, msg_id = Some ident, msg_text = stopped_text, sources = None,
            msg_isStreaming = Some False, isError = None\<rparr>"
    and "error (finally_block (catch_block ident (utf16 ''AbortError'') s)) = error s"
  using assms
  by (simp_all add: catch_block_def finally_block_def last_map placeholder_def)


lemma reachable_call:
  assumes "k < length (inflight (run evs init))"
  shows "k = 0" and "inflight (run evs init) = [inflight (run evs init) ! k]"
    and "waiting_for (page (run evs init)) (inflight (run evs init) ! k)"
proof -
  from assms have "inflight (run evs init) \<noteq> []" by auto
  then obtain c where c: "inflight (run evs init) = [c]"
    and w: "waiting_for (page (run evs init)) c"
    using consistent_busy [OF consistent_run] by blast
  from c assms show "k = 0" by simp
  with c w show "inflight (run evs init) = [inflight (run evs init) ! k]"
    and "waiting_for (page (run evs init)) (inflight (run evs init) ! k)" by simp_all
qed

text \<open>
  C3. In a reachable world, take any waiting call and let its request resolve with a
  status from 200 to 299 and the body \<open>{answer, sources}\<close>. The last message was the
  call's placeholder; afterwards it carries the answer as its text, the sources, and
  \<open>isStreaming\<close> false, the list is as long as before, the page no longer streams
  and no call waits.
\<close>

theorem success_fills_placeholder:
  fixes evs :: "'v event list" and k status answer srcs
  defines "w \<equiv> run evs init"
  defines "w' \<equiv> fire (Settle k (Response status (Json answer srcs))) w"
  assumes "k < length (inflight w)" and "ok status"
  shows "last (messages (page w)) = placeholder (call_id (inflight w ! k)) \<and>
         length (messages (page w')) = length (messages (page w)) \<and>
         last (messages (page w')) =
           \<lparr>role = Bot, msg_id = Some (call_id (inflight w ! k)), msg_text = answer,
            sources = Some srcs, msg_isStreaming = Some False, isError = None\<rparr> \<and>
         isStreaming (page w') = False \<and>
         inflight w' = []"
proof -
  let ?c = "inflight w ! k"
  from assms(3) have k: "k = 0" and one: "inflight w = [?c]"
    and wait: "waiting_for (page w) ?c"
    unfolding w_def by (rule reachable_call)+
  from wait have ne: "messages (page w) \<noteq> []"
    and pl: "last (messages (page w)) = placeholder (call_id ?c)"
    by (simp_all add: waiting_for_def)
  have w': "page w' = resume (call_id ?c) (Response status (Json answer srcs)) (page w)"
    using assms(3) by (simp add: w'_def)
  have "inflight w' = take k (inflight w) @ drop (Suc k) (inflight w)"
    using assms(3) by (simp add: w'_def)
  also have "\<dots> = take 0 [?c] @ drop (Suc 0) [?c]"
    using one k by simp
  finally have "inflight w' = []" by simp
  then show ?thesis
    using pl by (simp add: w' resume_length resume_fields
        resume_success_last [OF ne pl \<open>ok status\<close>])
qed

theorem success_fills_placeholder_witness:
  "(0::nat) < length (inflight (run [Type [0x68, 0x69], Submit 42] (init :: unit world))) \<and>
   ok 200 \<and>
   last (messages (page (fire (Settle 0 (Response 200 (Json [0x6F, 0x6B] ())))
       (run [Type [0x68, 0x69], Submit 42] (init :: unit world))))) =
     \<lparr>role = Bot, msg_id = Some 42, msg_text = [0x6F, 0x6B], sources = Some (),
      msg_isStreaming = Some False, isError = None\<rparr> \<and>
   isStreaming (page (fire (Settle 0 (Response 200 (Json [0x6F, 0x6B] ())))
       (run [Type [0x68, 0x69], Submit 42] (init :: unit world)))) = False \<and>
   inflight (fire (Settle 0 (Response 200 (Json [0x6F, 0x6B] ())))
       (run [Type [0x68, 0x69], Submit 42] (init :: unit world))) = []"
proof -
  let ?w = "run [Type [0x68, 0x69], Submit 42] (init :: unit world)"
  have c: "inflight ?w =
      [\<lparr>call_id = 42, call_request =
        \<lparr>url = utf16 ''http://127.0.0.1:8000/ask'', http_method = utf16 ''POST'',
         headers = [(utf16 ''Content-Type'', utf16 ''application/json'')],
         body = JObject [(utf16 ''question'', JString [0x68, 0x69])], signal = 0\<rparr>\<rparr>]"
    by (simp add: run_def init_def sendMessage_def trim_def is_whitespace_def)
  have h1: "0 < length (inflight ?w)" by (simp add: c)
  have h2: "ok 200" by (simp add: ok_def)
  from success_fills_placeholder [OF h1 h2, of "[0x6F, 0x6B]" "()"]
  show ?thesis using h1 h2 by (simp add: c)
qed


lemma fire_Settle_reachable:
  assumes "k < length (inflight (run evs init))"
  shows "fire (Settle k out) (run evs init) =
    \<lparr>page = resume (call_id (inflight (run evs init) ! k)) out (page (run evs init)),
     inflight = []\<rparr>"
proof -
  from assms have "k = 0" and "inflight (run evs init) = [inflight (run evs init) ! k]"
    by (rule reachable_call)+
  then have "take k (inflight (run evs init)) @ drop (Suc k) (inflight (run evs init)) = []"
    by (metis append_Nil drop0 drop_Suc list.sel(3) take_0)
  with assms show ?thesis by simp
qed

lemma fire_Stop_reachable:
  assumes "k < length (inflight (run evs init))"
  shows "fire Stop (run evs init) =
    \<lparr>page = resume (call_id (inflight (run evs init) ! k))
             (Fetch_rejected (utf16 ''AbortError'')) (stopGeneration (page (run evs init))),
     inflight = []\<rparr>"
proof -
  from assms have "inflight (run evs init) = [inflight (run evs init) ! k]"
    by (rule reachable_call)
  with consistent_run show ?thesis by (rule fire_Stop_busy)
qed

lemma stopGeneration_fields:
  "error (stopGeneration s) = error s"
  "input (stopGeneration s) = input s"
  by (simp_all add: stopGeneration_def split: option.splits)

text \<open>
  C4. In a reachable world, let the user press stop while a call waits, or let its
  \<open>fetch\<close> reject with an \<open>AbortError\<close>. The call's placeholder gets the stopped
  notice as its text and \<open>isStreaming\<close> false, the page no longer streams, no call
  waits, and the error banner is empty.
\<close>

theorem cancel_marks_placeholder_stopped:
  fixes evs :: "'v event list" and k e
  defines "w \<equiv> run evs init"
  defines "w' \<equiv> fire e w"
  assumes "k < length (inflight w)"
    and "e = Stop \<or> e = Settle k (Fetch_rejected (utf16 ''AbortError''))"
  shows "last (messages (page w)) = placeholder (call_id (inflight w ! k)) \<and>
         length (messages (page w')) = length (messages (page w)) \<and>
         last (messages (page w')) =
           \<lparr>role = Bot, msg_id = Some (call_id (inflight w ! k)), msg_text = stopped_text,
            sources = None, msg_isStreaming = Some False, isError = None\<rparr> \<and>
         isStreaming (page w') = False \<and>
         error (page w') = None \<and>
         inflight w' = []"
proof -
  let ?c = "inflight w ! k"
  let ?abort = "Fetch_rejected (utf16 ''AbortError'') :: 'v outcome"
  from assms(3) have wait: "waiting_for (page w) ?c"
    unfolding w_def by (rule reachable_call)
  then have ne: "messages (page w) \<noteq> []"
    and pl: "last (messages (page w)) = placeholder (call_id ?c)"
    and err: "error (page w) = None"
    by (simp_all add: waiting_for_def)
  obtain s where s: "messages s = messages (page w)" "error s = error (page w)"
    and w': "w' = \<lparr>page = resume (call_id ?c) ?abort s, inflight = []\<rparr>"
  proof (cases "e = Stop")
    case True
    then have "w' = \<lparr>page = resume (call_id ?c) ?abort (stopGeneration (page w)),
        inflight = []\<rparr>"
      using fire_Stop_reachable [of k evs] assms(3) by (simp add: w'_def w_def)
    then show ?thesis
      using that [of "stopGeneration (page w)"]
      by (simp add: stopGeneration_messages stopGeneration_fields)
  next
    case False
    with assms(4) have "e = Settle k ?abort" by simp
    then have "w' = \<lparr>page = resume (call_id ?c) ?abort (page w), inflight = []\<rparr>"
      using fire_Settle_reachable [of k evs ?abort] assms(3) by (simp add: w'_def w_def)
    then show ?thesis using that [of "page w"] by simp
  qed
  have r: "resume (call_id ?c) ?abort s =
      finally_block (catch_block (call_id ?c) (utf16 ''AbortError'') s)"
    by (rule resume_thrown) (simp add: try_block_def)
  from ne pl have ne': "messages s \<noteq> []" and pl': "last (messages s) = placeholder (call_id ?c)"
    by (simp_all add: s)
  have "last (messages (page w')) =
      \<lparr>role = Bot, msg_id = Some (call_id ?c), msg_text = stopped_text,
       sources = None, msg_isStreaming = Some False, isError = None\<rparr>"
    unfolding w' using catch_abort_last(1) [OF ne' pl'] by (simp add: r)
  moreover have "error (page w') = None"
    unfolding w' using catch_abort_last(2) [OF ne' pl'] by (simp add: r s err)
  moreover have "length (messages (page w')) = length (messages (page w))"
    unfolding w' by (simp add: resume_length s)
  moreover have "isStreaming (page w') = False" "inflight w' = []"
    unfolding w' by (simp_all add: resume_fields)
  ultimately show ?thesis using pl by simp
qed

theorem cancel_marks_placeholder_stopped_witness:
  "(0::nat) < length (inflight (run [Type [0x68, 0x69], Submit 42] (init :: unit world))) \<and>
   last (messages (page (fire Stop
       (run [Type [0x68, 0x69], Submit 42] (init :: unit world))))) =
     \<lparr>role = Bot, msg_id = Some 42, msg_text = stopped_text, sources = None,
      msg_isStreaming = Some False, isError = None\<rparr> \<and>
   isStreaming (page (fire Stop
       (run [Type [0x68, 0x69], Submit 42] (init :: unit world)))) = False \<and>
   error (page (fire Stop
       (run [Type [0x68, 0x69], Submit 42] (init :: unit world)))) = None \<and>
   inflight (fire Stop (run [Type [0x68, 0x69], Submit 42] (init :: unit world))) = []"
proof -
  let ?w = "run [Type [0x68, 0x69], Submit 42] (init :: unit world)"
  have c: "inflight ?w =
      [\<lparr>call_id = 42, call_request =
        \<lparr>url = utf16 ''http://127.0.0.1:8000/ask'', http_method = utf16 ''POST'',
         headers = [(utf16 ''Content-Type'', utf16 ''application/json'')],
         body = JObject [(utf16 ''question'', JString [0x68, 0x69])], signal = 0\<rparr>\<rparr>]"
    by (simp add: run_def init_def sendMessage_def trim_def is_whitespace_def)
  have h1: "0 < length (inflight ?w)" by (simp add: c)
  have h2: "(Stop :: unit event) = Stop \<or>
      (Stop :: unit event) = Settle 0 (Fetch_rejected (utf16 ''AbortError''))" by simp
  from cancel_marks_placeholder_stopped [OF h1 h2]
  show ?thesis using h1 by (simp add: c)
qed



section \<open>One request at a time\<close>

lemma reachable_flag:
  "isStreaming (page (run evs init)) = (inflight (run evs init) \<noteq> [])"
proof (cases "inflight (run evs init)")
  case Nil
  then show ?thesis using consistent_idle [OF consistent_run, of evs] by simp
next
  case (Cons c cs)
  then have "inflight (run evs init) \<noteq> []" by simp
  then show ?thesis
    using consistent_busy [OF consistent_run, of evs] by (auto simp: waiting_for_def)
qed

lemma reachable_single: "length (inflight (run evs init)) \<le> 1"
proof (cases "inflight (run evs init) = []")
  case True
  then show ?thesis by simp
next
  case False
  then show ?thesis
    using consistent_busy [OF consistent_run, of evs] by auto
qed

text \<open>
  C6. In every reachable world at most one call waits, and the page streams exactly
  when one does. While \<open>isStreaming\<close> is set, \<open>sendMessage\<close> returns the state it was
  given and hands nothing to \<open>fetch\<close>, so the world stays as it is.
\<close>

theorem at_most_one_request_in_flight:
  "length (inflight (run evs init)) \<le> 1 \<and>
   isStreaming (page (run evs init)) = (inflight (run evs init) \<noteq> []) \<and>
   (isStreaming s \<longrightarrow> sendMessage now s = (s, None)) \<and>
   (isStreaming (page w) \<longrightarrow> fire (Submit now) w = w)"
  using reachable_single [of evs] reachable_flag [of evs]
    sendMessage_blocked [of s now] fire_Submit_blocked [of w now]
  by blast

theorem at_most_one_request_in_flight_witness:
  "length (inflight (run [Type [0x68], Submit 1, Submit 2] (init :: unit world))) = 1 \<and>
   isStreaming (page (run [Type [0x68], Submit 1, Submit 2] (init :: unit world))) \<and>
   isStreaming (page (init :: unit world)\<lparr>input := [0x68], isStreaming := True\<rparr>) \<and>
   sendMessage 2 (page (init :: unit world)\<lparr>input := [0x68], isStreaming := True\<rparr>) =
     (page (init :: unit world)\<lparr>input := [0x68], isStreaming := True\<rparr>, None)"
proof -
  let ?w = "run [Type [0x68], Submit 1, Submit 2] (init :: unit world)"
  let ?s = "page (init :: unit world)\<lparr>input := [0x68], isStreaming := True\<rparr>"
  have ne: "inflight ?w \<noteq> []"
    by (simp add: run_def init_def sendMessage_def trim_def is_whitespace_def)
  have s: "isStreaming ?s" by simp
  from at_most_one_request_in_flight [of "[Type [0x68], Submit 1, Submit 2]" ?s 2]
  have "length (inflight ?w) \<le> 1" and "isStreaming (page ?w) = (inflight ?w \<noteq> [])"
    and "sendMessage 2 ?s = (?s, None)"
    using s by blast+
  moreover from ne have "length (inflight ?w) \<noteq> 0" by simp
  ultimately show ?thesis using ne s by (simp add: le_Suc_eq)
qed

lemma reachable_nonblank_idle:
  assumes "\<exists>c\<in>set (input (page (run evs init))). \<not> is_whitespace c"
  shows "inflight (run evs init) = []" and "\<not> isStreaming (page (run evs init))"
    and "trim (input (page (run evs init))) \<noteq> []"
proof -
  from assms show t: "trim (input (page (run evs init))) \<noteq> []"
    by (simp add: trim_Nil_iff)
  show i: "inflight (run evs init) = []"
  proof (rule ccontr)
    assume "inflight (run evs init) \<noteq> []"
    then have "input (page (run evs init)) = []"
      using consistent_busy [OF consistent_run, of evs] by (auto simp: waiting_for_def)
    with assms show False by simp
  qed
  then show "\<not> isStreaming (page (run evs init))"
    by (simp add: reachable_flag)
qed

text \<open>
  C7. In a reachable world whose draft holds a code unit that is not whitespace,
  \<open>sendMessage\<close> hands exactly one request to \<open>fetch\<close>: a POST to the \<open>/ask\<close>
  endpoint whose body is the object \<open>{question: q}\<close> with \<open>q\<close> the trimmed draft. No
  call waited before; exactly this one waits afterwards.
\<close>

theorem submission_issues_one_post:
  fixes evs :: "'v event list" and now
  defines "w \<equiv> run evs init"
  defines "q \<equiv> \<lparr>url = utf16 ''http://127.0.0.1:8000/ask'',
                  http_method = utf16 ''POST'',
                  headers = [(utf16 ''Content-Type'', utf16 ''application/json'')],
                  body = JObject [(utf16 ''question'', JString (trim (input (page w))))],
                  signal = length (controllers (page w))\<rparr>"
  assumes "\<exists>c\<in>set (input (page w)). \<not> is_whitespace c"
  shows "snd (sendMessage now (page w)) = Some q \<and>
         inflight w = [] \<and>
         inflight (fire (Submit now) w) = [\<lparr>call_id = now, call_request = q\<rparr>]"
proof -
  from assms(3) have idle: "inflight w = []" and "\<not> isStreaming (page w)"
    and "trim (input (page w)) \<noteq> []"
    unfolding w_def by (rule reachable_nonblank_idle)+
  then obtain s' where "sendMessage now (page w) = (s', Some q)"
    by (simp add: sendMessage_accepted q_def)
  then show ?thesis using idle by simp
qed

theorem submission_issues_one_post_witness:
  "(\<exists>c\<in>set (input (page (run [Type [0x20, 0x68, 0x69]] (init :: unit world)))).
      \<not> is_whitespace c) \<and>
   inflight (fire (Submit 42) (run [Type [0x20, 0x68, 0x69]] (init :: unit world))) =
     [\<lparr>call_id = 42, call_request =
        \<lparr>url = utf16 ''http://127.0.0.1:8000/ask'', http_method = utf16 ''POST'',
         headers = [(utf16 ''Content-Type'', utf16 ''application/json'')],
         body = JObject [(utf16 ''question'', JString [0x68, 0x69])], signal = 0\<rparr>\<rparr>]"
proof -
  let ?w = "run [Type [0x20, 0x68, 0x69]] (init :: unit world)"
  have p: "page ?w = \<lparr>input = [0x20, 0x68, 0x69], messages = [], isStreaming = False,
      error = None, abortRef = None, controllers = []\<rparr>"
    by (simp add: run_def init_def)
  have h: "\<exists>c\<in>set (input (page ?w)). \<not> is_whitespace c"
    by (simp add: p is_whitespace_def)
  have t: "trim (input (page ?w)) = [0x68, 0x69]"
    by (simp add: p trim_def is_whitespace_def)
  have c: "length (controllers (page ?w)) = 0"
    by (simp add: p)
  from submission_issues_one_post [OF h, of 42]
  have "inflight (fire (Submit 42) ?w) =
     [\<lparr>call_id = 42, call_request =
        \<lparr>url = utf16 ''http://127.0.0.1:8000/ask'', http_method = utf16 ''POST'',
         headers = [(utf16 ''Content-Type'', utf16 ''application/json'')],
         body = JObject [(utf16 ''question'', JString (trim (input (page ?w))))],
         signal = length (controllers (page ?w))\<rparr>\<rparr>]"
    by blast
  then have "inflight (fire (Submit 42) ?w) =
     [\<lparr>call_id = 42, call_request =
        \<lparr>url = utf16 ''http://127.0.0.1:8000/ask'', http_method = utf16 ''POST'',
         headers = [(utf16 ''Content-Type'', utf16 ''application/json'')],
         body = JObject [(utf16 ''question'', JString [0x68, 0x69])], signal = 0\<rparr>\<rparr>]"
    unfolding t c .
  with h show ?thesis by blast
qed

section \<open>What a settled call may change\<close>







section \<open>The conversation\<close>

lemma resume_messages_cong:
  "messages s = messages t \<Longrightarrow> messages (resume ident out s) = messages (resume ident out t)"
  by (simp add: resume_def try_block_def catch_block_def finally_block_def
      split: outcome.splits body_result.splits)

lemma fire_shape:
  assumes "consistent w"
  obtains (grown) extra where "messages (page (fire e w)) = messages (page w) @ extra"
    | (settled) ident out where
        "messages (page (fire e w)) = messages (resume ident out (page w))"
proof (cases e)
  case (Type v)
  then have "messages (page (fire e w)) = messages (page w) @ []" by simp
  then show ?thesis by (rule grown)
next
  case Dismiss
  then have "messages (page (fire e w)) = messages (page w) @ []" by simp
  then show ?thesis by (rule grown)
next
  case (Submit now)
  show ?thesis
  proof (cases "trim (input (page w)) = [] \<or> isStreaming (page w)")
    case True
    then have "fire (Submit now) w = w" by (rule fire_Submit_blocked)
    with Submit have "messages (page (fire e w)) = messages (page w) @ []" by simp
    then show ?thesis by (rule grown)
  next
    case False
    then have "trim (input (page w)) \<noteq> []" "\<not> isStreaming (page w)" by simp_all
    note acc = sendMessage_accepted [OF this, of now]
    from Submit show ?thesis by (intro grown) (simp add: acc)
  qed
next
  case Stop
  show ?thesis
  proof (cases "inflight w")
    case Nil
    with assms have "fire Stop w = w" by (rule fire_Stop_idle)
    with Stop have "messages (page (fire e w)) = messages (page w) @ []" by simp
    then show ?thesis by (rule grown)
  next
    case (Cons c cs)
    with assms have "inflight w = [c]" by (simp add: consistent_def)
    with assms have "fire Stop w =
      \<lparr>page = resume (call_id c) (Fetch_rejected (utf16 ''AbortError'')) (stopGeneration (page w)),
       inflight = []\<rparr>"
      by (rule fire_Stop_busy)
    with Stop have "messages (page (fire e w)) =
        messages (resume (call_id c) (Fetch_rejected (utf16 ''AbortError'')) (page w))"
      by (simp add: resume_messages_cong [OF stopGeneration_messages])
    then show ?thesis by (rule settled)
  qed
next
  case (Settle k out)
  show ?thesis
  proof (cases "k < length (inflight w)")
    case True
    with Settle have "messages (page (fire e w)) =
        messages (resume (call_id (inflight w ! k)) out (page w))" by simp
    then show ?thesis by (rule settled)
  next
    case False
    with Settle have "messages (page (fire e w)) = messages (page w) @ []" by simp
    then show ?thesis by (rule grown)
  qed
qed

lemma fire_keeps_messages:
  assumes "consistent w"
  shows "length (messages (page w)) \<le> length (messages (page (fire e w)))"
    and "i < length (messages (page w)) \<Longrightarrow>
           role (messages (page (fire e w)) ! i) = role (messages (page w) ! i) \<and>
           msg_id (messages (page (fire e w)) ! i) = msg_id (messages (page w) ! i) \<and>
           (role (messages (page w) ! i) = User \<longrightarrow>
              messages (page (fire e w)) ! i = messages (page w) ! i)"
proof -
  from assms have ids:
    "list_all (\<lambda>m. role m = User \<longrightarrow> msg_id m = None) (messages (page w))"
    by (simp add: consistent_def)
  from assms show "length (messages (page w)) \<le> length (messages (page (fire e w)))"
    by (cases rule: fire_shape [of w e]) (simp_all add: resume_length)
  assume i: "i < length (messages (page w))"
  from assms show "role (messages (page (fire e w)) ! i) = role (messages (page w) ! i) \<and>
           msg_id (messages (page (fire e w)) ! i) = msg_id (messages (page w) ! i) \<and>
           (role (messages (page w) ! i) = User \<longrightarrow>
              messages (page (fire e w)) ! i = messages (page w) ! i)"
  proof (cases rule: fire_shape [of w e])
    case (grown extra)
    with i show ?thesis by (simp add: nth_append)
  next
    case (settled ident out)
    have "messages (resume ident out (page w)) ! i = messages (page w) ! i"
      if "role (messages (page w) ! i) = User"
    proof -
      from ids i that have "msg_id (messages (page w) ! i) = None"
        by (simp add: list_all_length)
      then show ?thesis using i by (simp add: resume_nth)
    qed
    with i settled show ?thesis by (simp add: resume_nth)
  qed
qed

text \<open>
  C9. In every world reachable from the empty conversation the roles of the messages
  read user, bot, user, bot, ..., so the list has even length. No event shortens the
  list or moves a message: each position keeps its role and \<open>id\<close>, and a user's
  message stays exactly as it was.
\<close>

theorem conversation_alternates:
  fixes evs :: "'v event list" and e
  defines "w \<equiv> run evs init"
  defines "w' \<equiv> fire e w"
  shows "alternating (map role (messages (page w))) \<and>
         even (length (messages (page w))) \<and>
         length (messages (page w)) \<le> length (messages (page w')) \<and>
         (\<forall>i<length (messages (page w)).
            role (messages (page w') ! i) = role (messages (page w) ! i) \<and>
            msg_id (messages (page w') ! i) = msg_id (messages (page w) ! i) \<and>
            (role (messages (page w) ! i) = User \<longrightarrow>
               messages (page w') ! i = messages (page w) ! i))"
proof -
  have c: "consistent w" unfolding w_def by (rule consistent_run)
  then have a: "alternating (map role (messages (page w)))" by (simp add: consistent_def)
  from alternating_even [OF a] have "even (length (messages (page w)))" by simp
  with a fire_keeps_messages [OF c, where e = e] show ?thesis
    unfolding w'_def by blast
qed


text \<open>A run with a failed request and a second submission, evaluated.\<close>

lemma failed_then_resubmitted:
  "run [Type [0x61], Submit 1, Settle 0 (Response 500 (Json [] ())),
        Type [0x62], Submit 2] (init :: unit world) =
   \<lparr>page = \<lparr>input = [], messages =
      [\<lparr>role = User, msg_id = None, msg_text = [0x61], sources = None,
        msg_isStreaming = None, isError = None\<rparr>,
       \<lparr>role = Bot, msg_id = Some 1, msg_text = fallback_text, sources = None,
        msg_isStreaming = Some False, isError = Some True\<rparr>,
       \<lparr>role = User, msg_id = None, msg_text = [0x62], sources = None,
        msg_isStreaming = None, isError = None\<rparr>,
       \<lparr>role = Bot, msg_id = Some 2, msg_text = [], sources = None,
        msg_isStreaming = Some True, isError = None\<rparr>],
     isStreaming = True, error = None, abortRef = Some 1, controllers = [False, False]\<rparr>,
    inflight = [\<lparr>call_id = 2, call_request =
        \<lparr>url = utf16 ''http://127.0.0.1:8000/ask'', http_method = utf16 ''POST'',
         headers = [(utf16 ''Content-Type'', utf16 ''application/json'')],
         body = JObject [(utf16 ''question'', JString [0x62])], signal = 1\<rparr>\<rparr>]\<rparr>"
  by (simp add: run_def init_def sendMessage_def trim_def is_whitespace_def
      resume_def try_block_def catch_block_def finally_block_def ok_def AbortError_neq_Error)

theorem conversation_alternates_witness:
  "map role (messages (page (run [Type [0x61], Submit 1, Settle 0 (Response 500 (Json [] ())),
             Type [0x62], Submit 2] (init :: unit world)))) = [User, Bot, User, Bot] \<and>
   alternating (map role (messages (page (run [Type [0x61], Submit 1, Settle 0 (Response 500 (Json [] ())),
             Type [0x62], Submit 2] (init :: unit world))))) \<and>
   even (length (messages (page (run [Type [0x61], Submit 1, Settle 0 (Response 500 (Json [] ())),
             Type [0x62], Submit 2] (init :: unit world))))) \<and>
   length (messages (page (run [Type [0x61], Submit 1, Settle 0 (Response 500 (Json [] ())),
             Type [0x62], Submit 2] (init :: unit world)))) \<le> length (messages (page (fire Stop (run [Type [0x61], Submit 1, Settle 0 (Response 500 (Json [] ())),
             Type [0x62], Submit 2] (init :: unit world))))) \<and>
   messages (page (fire Stop (run [Type [0x61], Submit 1, Settle 0 (Response 500 (Json [] ())),
             Type [0x62], Submit 2] (init :: unit world)))) ! 0 = messages (page (run [Type [0x61], Submit 1, Settle 0 (Response 500 (Json [] ())),
             Type [0x62], Submit 2] (init :: unit world))) ! 0"
proof -
  let ?w = "(run [Type [0x61], Submit 1, Settle 0 (Response 500 (Json [] ())),
             Type [0x62], Submit 2] (init :: unit world))"
  have m: "map role (messages (page ?w)) = [User, Bot, User, Bot]"
    and i: "0 < length (messages (page ?w))"
    and u: "role (messages (page ?w) ! 0) = User"
    by (simp_all add: failed_then_resubmitted)
  note t = conversation_alternates [of "[Type [0x61], Submit 1,
      Settle 0 (Response 500 (Json [] ())), Type [0x62], Submit 2]" Stop]
  from t i u have "messages (page (fire Stop ?w)) ! 0 = messages (page ?w) ! 0"
    by blast
  with t m show ?thesis by blast
qed

section \<open>The error banner\<close>

text \<open>
  C10. An accepted submission (non-blank draft, page not streaming) sets the error to
  \<open>null\<close> and empties the draft. In every reachable world, while a call waits the
  error is \<open>null\<close> and the draft is empty, so no banner of an earlier request shows
  during a later one.
\<close>

theorem submission_clears_banner_and_draft:
  "((\<exists>c\<in>set (input s). \<not> is_whitespace c) \<and> \<not> isStreaming s \<longrightarrow>
      error (fst (sendMessage now s)) = None \<and> input (fst (sendMessage now s)) = []) \<and>
   (inflight (run evs init) \<noteq> [] \<longrightarrow>
      error (page (run evs init)) = None \<and> input (page (run evs init)) = [])"
proof (intro conjI impI)
  assume a: "(\<exists>c\<in>set (input s). \<not> is_whitespace c) \<and> \<not> isStreaming s"
  then have "trim (input s) \<noteq> []" by (simp add: trim_Nil_iff)
  with a show "error (fst (sendMessage now s)) = None"
    and "input (fst (sendMessage now s)) = []"
    by (simp_all add: sendMessage_accepted)
next
  assume "inflight (run evs init) \<noteq> []"
  then obtain c where "waiting_for (page (run evs init)) c"
    using consistent_busy [OF consistent_run] by blast
  then show "error (page (run evs init)) = None" and "input (page (run evs init)) = []"
    by (simp_all add: waiting_for_def)
qed

theorem submission_clears_banner_and_draft_witness:
  "(\<exists>c\<in>set [0x68 :: 16 word]. \<not> is_whitespace c) \<and>
   error (page (init :: unit world)\<lparr>input := [0x68], error := Some banner_text\<rparr>) =
     Some banner_text \<and>
   error (fst (sendMessage 9
     (page (init :: unit world)\<lparr>input := [0x68], error := Some banner_text\<rparr>))) = None \<and>
   input (fst (sendMessage 9
     (page (init :: unit world)\<lparr>input := [0x68], error := Some banner_text\<rparr>))) = [] \<and>
   inflight (run [Type [0x61], Submit 1, Settle 0 (Response 500 (Json [] ())),
             Type [0x62], Submit 2] (init :: unit world)) \<noteq> [] \<and>
   error (page (run [Type [0x61], Submit 1, Settle 0 (Response 500 (Json [] ())),
             Type [0x62], Submit 2] (init :: unit world))) = None \<and>
   input (page (run [Type [0x61], Submit 1, Settle 0 (Response 500 (Json [] ())),
             Type [0x62], Submit 2] (init :: unit world))) = []"
proof -
  let ?s = "page (init :: unit world)\<lparr>input := [0x68], error := Some banner_text\<rparr>"
  have h1: "(\<exists>c\<in>set (input ?s). \<not> is_whitespace c) \<and> \<not> isStreaming ?s"
    by (simp add: is_whitespace_def init_def)
  have h2: "inflight (run [Type [0x61], Submit 1, Settle 0 (Response 500 (Json [] ())),
             Type [0x62], Submit 2] (init :: unit world)) \<noteq> []"
    by (simp add: failed_then_resubmitted)
  from submission_clears_banner_and_draft [of ?s 9 "[Type [0x61], Submit 1,
      Settle 0 (Response 500 (Json [] ())), Type [0x62], Submit 2]"] h1 h2
  have "error (fst (sendMessage 9 ?s)) = None" "input (fst (sendMessage 9 ?s)) = []"
    "error (page (run [Type [0x61], Submit 1, Settle 0 (Response 500 (Json [] ())),
             Type [0x62], Submit 2] (init :: unit world))) = None" "input (page (run [Type [0x61], Submit 1, Settle 0 (Response 500 (Json [] ())),
             Type [0x62], Submit 2] (init :: unit world))) = []"
    by blast+
  with h1 h2 show ?thesis by simp
qed

end
